theory Spec2Isabelle
  imports Main
begin

chapter \<open>The embedding\<close>

section \<open>The lock-protected mutation (RedisClient.js, protectedMutation)\<close>

text \<open>
  A promise that has settled is either fulfilled with a value or rejected with an error.
  A JavaScript function throws and returns values of one and the same type, so for
  \<open>protectedMutation\<close> both are \<open>'v\<close>.
\<close>

datatype ('e, 'a) settled = Fulfilled 'a | Rejected 'e

text \<open>
  What \<open>await mutationFn()\<close> can do. Every promise that a call awaits is taken to
  settle: a promise that stays pending leaves the call pending.
\<close>

datatype 'v mutation = Resolves 'v | ThrowsSync 'v | RejectsAsync 'v

text \<open>A synchronous call either returns or throws.\<close>

datatype 'v completion = Normal | Throw 'v

text \<open>
  What an observer of one call sees, in order: the acquire attempt, the invocation of the
  mutation function, every release attempt, every invocation of the caller's
  \<open>handleFailedLockRelease\<close> and every \<open>logger.error\<close>.
\<close>

datatype 'v event =
    Acquire string nat
  | Mutate
  | Release
  | Callback 'v
  | LogError 'v

text \<open>
  The collaborators of one call. \<open>lock_result key ttl\<close> is \<open>Some e\<close> when
  \<open>lockManager.lock\<close> rejects with \<open>e\<close>. \<open>unlock_result i\<close> is the outcome of the
  \<open>i\<close>-th call of \<open>lock.unlock()\<close> (counted from 0), \<open>Some e\<close> for a rejection.
  \<open>callback\<close> is \<open>None\<close> for the default \<open>null\<close>; a supplied function may throw
  (\<open>Some c\<close>) or return (\<open>None\<close>), and being a JavaScript function it may answer
  differently at its \<open>i\<close>-th invocation. The logger's methods accept any arguments and
  return, as LoggerSchema declares them.
\<close>

record 'v world =
  lock_result :: "string \<Rightarrow> nat \<Rightarrow> 'v option"
  mutationFn :: "'v mutation"
  unlock_result :: "nat \<Rightarrow> 'v option"
  callback :: "(nat \<Rightarrow> 'v \<Rightarrow> 'v option) option"

definition releases :: "'v event list \<Rightarrow> nat" where
  "releases tr = length (filter (\<lambda>ev. ev = Release) tr)"

fun is_Callback :: "'v event \<Rightarrow> bool" where
  "is_Callback (Callback _) = True"
| "is_Callback _ = False"

definition callbacks :: "'v event list \<Rightarrow> nat" where
  "callbacks tr = length (filter is_Callback tr)"

text \<open>
  \<open>handleUnlock\<close>: one \<open>lock.unlock()\<close>; on its rejection the \<open>catch\<close> handler calls
  the callback when there is one and the logger otherwise. Nothing catches what the
  callback throws, so the promise of \<open>handleUnlock\<close> rejects with it.
\<close>

definition handleUnlock :: "'v world \<Rightarrow> 'v event list \<Rightarrow> 'v completion \<times> 'v event list" where
  "handleUnlock w tr =
     (case unlock_result w (releases tr) of
        None \<Rightarrow> (Normal, tr @ [Release])
      | Some err \<Rightarrow>
          (case callback w of
             Some f \<Rightarrow>
               (case f (callbacks tr) err of
                  None \<Rightarrow> (Normal, tr @ [Release, Callback err])
                | Some c \<Rightarrow> (Throw c, tr @ [Release, Callback err]))
           | None \<Rightarrow> (Normal, tr @ [Release, LogError err])))"

text \<open>The \<open>catch (err)\<close> block: release, then return the caught error as a value.\<close>

definition catch_block :: "'v world \<Rightarrow> 'v \<Rightarrow> 'v event list \<Rightarrow> ('v, 'v) settled \<times> 'v event list" where
  "catch_block w err tr =
     (case handleUnlock w tr of
        (Normal, tr') \<Rightarrow> (Fulfilled err, tr')
      | (Throw c, tr') \<Rightarrow> (Rejected c, tr'))"

text \<open>
  \<open>protectedMutation\<close>. The first \<open>handleUnlock\<close> stands inside the \<open>try\<close>, so what it
  throws is caught by the same \<open>catch\<close> that catches the mutation's error.
\<close>

definition protectedMutation ::
  "'v world \<Rightarrow> string \<Rightarrow> nat \<Rightarrow> ('v, 'v) settled \<times> 'v event list" where
  "protectedMutation w resourceKey ttl =
     (case lock_result w resourceKey ttl of
        Some e \<Rightarrow> (Rejected e, [Acquire resourceKey ttl])
      | None \<Rightarrow>
          (case mutationFn w of
             Resolves result \<Rightarrow>
               (case handleUnlock w [Acquire resourceKey ttl, Mutate] of
                  (Normal, tr) \<Rightarrow> (Fulfilled result, tr)
                | (Throw err, tr) \<Rightarrow> catch_block w err tr)
           | ThrowsSync err \<Rightarrow> catch_block w err [Acquire resourceKey ttl, Mutate]
           | RejectsAsync err \<Rightarrow> catch_block w err [Acquire resourceKey ttl, Mutate]))"

text \<open>The MutationOutcome of a call: the value the mutation resolved to, or the error it raised.\<close>

fun outcome :: "'v mutation \<Rightarrow> 'v" where
  "outcome (Resolves v) = v"
| "outcome (ThrowsSync e) = e"
| "outcome (RejectsAsync e) = e"

fun failed :: "'v mutation \<Rightarrow> bool" where
  "failed (Resolves _) = False"
| "failed (ThrowsSync _) = True"
| "failed (RejectsAsync _) = True"

text \<open>The callback is supplied and throws at its first invocation, on the first release error.\<close>

definition callback_throws :: "'v world \<Rightarrow> bool" where
  "callback_throws w =
     (case unlock_result w 0 of
        None \<Rightarrow> False
      | Some err \<Rightarrow> (case callback w of None \<Rightarrow> False | Some f \<Rightarrow> f 0 err \<noteq> None))"

subsection \<open>Concrete calls\<close>

text \<open>Release succeeds; the mutation throws \<open>Err1\<close> (scenario C of the specification).\<close>

definition world_C :: "string world" where
  "world_C = \<lparr>lock_result = (\<lambda>_ _. None), mutationFn = ThrowsSync ''Err1'',
     unlock_result = (\<lambda>_. None), callback = None\<rparr>"

text \<open>The lock is held by somebody else.\<close>

definition world_locked :: "string world" where
  "world_locked = \<lparr>lock_result = (\<lambda>_ _. Some ''LockError''), mutationFn = Resolves ''done'',
     unlock_result = (\<lambda>_. None), callback = None\<rparr>"

text \<open>Release fails and nobody supplied a callback.\<close>

definition world_logged :: "string world" where
  "world_logged = \<lparr>lock_result = (\<lambda>_ _. None), mutationFn = Resolves ''done'',
     unlock_result = (\<lambda>_. Some ''RelErr''), callback = None\<rparr>"

text \<open>Release fails and the callback returns.\<close>

definition world_handled :: "string world" where
  "world_handled = \<lparr>lock_result = (\<lambda>_ _. None), mutationFn = RejectsAsync ''Err1'',
     unlock_result = (\<lambda>_. Some ''RelErr''), callback = Some (\<lambda>_ _. None)\<rparr>"

text \<open>The mutation rejects, release fails and the callback throws.\<close>

definition world_reject_throw :: "string world" where
  "world_reject_throw = \<lparr>lock_result = (\<lambda>_ _. None), mutationFn = RejectsAsync ''Err1'',
     unlock_result = (\<lambda>_. Some ''RelErr''), callback = Some (\<lambda>_ _. Some ''CbErr'')\<rparr>"

text \<open>The mutation throws synchronously, release fails and the callback throws.\<close>

definition world_sync_throw :: "string world" where
  "world_sync_throw = \<lparr>lock_result = (\<lambda>_ _. None), mutationFn = ThrowsSync ''Err1'',
     unlock_result = (\<lambda>_. Some ''RelErr''), callback = Some (\<lambda>_ _. Some ''CbErr'')\<rparr>"

text \<open>
  The mutation resolves, the first release fails, the callback throws, and a second
  release would succeed.
\<close>

definition world_resolve_throw :: "string world" where
  "world_resolve_throw = \<lparr>lock_result = (\<lambda>_ _. None), mutationFn = Resolves ''done'',
     unlock_result = (\<lambda>i. if i = 0 then Some ''RelErr'' else None),
     callback = Some (\<lambda>_ _. Some ''CbErr'')\<rparr>"

section \<open>Configuration (lib/configUtils, parseConfig)\<close>

text \<open>
  The raw configuration as the validator reads it; \<open>None\<close> is an absent key. The number
  fields are declared \<open>integer()\<close>, so the type of the model already holds what the
  validator lets through.
\<close>

record RedisConfigParam =
  REDIS_URL :: "string option"
  REDIS_CONNECTION_MAX_RETRIES :: "int option"
  REDIS_RETRY_DELAY_MS :: "int option"
  REDIS_WORKERS :: "int option"

text \<open>
  The validated value: the defaults are filled in, and the default of
  \<open>REDIS_RETRY_DELAY_MS\<close> is \<open>null\<close>, here \<open>None\<close>.
\<close>

record ConfigValue =
  value_REDIS_URL :: string
  value_REDIS_CONNECTION_MAX_RETRIES :: int
  value_REDIS_RETRY_DELAY_MS :: "int option"
  value_REDIS_WORKERS :: int

datatype config_error = ConfigValidationError

text \<open>
  A number that \<open>number()\<close> lets through, when it is there: a safe integer, of magnitude
  below \<open>2^53\<close>.
\<close>

fun safe_number :: "int option \<Rightarrow> bool" where
  "safe_number None = True"
| "safe_number (Some n) = (- 9007199254740992 < n \<and> n < 9007199254740992)"

text \<open>
  \<open>configValidator.validate\<close>. Whether a string is a URI of scheme \<open>redis\<close> is decided
  by the validation library, a parameter here.
\<close>

definition configValidator ::
  "(string \<Rightarrow> bool) \<Rightarrow> RedisConfigParam \<Rightarrow> config_error + ConfigValue" where
  "configValidator redis_uri c =
     (case REDIS_URL c of
        None \<Rightarrow> Inl ConfigValidationError
      | Some u \<Rightarrow>
          if \<not> redis_uri u then Inl ConfigValidationError
          else if \<not> safe_number (REDIS_CONNECTION_MAX_RETRIES c)
                \<or> \<not> safe_number (REDIS_RETRY_DELAY_MS c)
                \<or> \<not> safe_number (REDIS_WORKERS c)
          then Inl ConfigValidationError
          else if (case REDIS_CONNECTION_MAX_RETRIES c of None \<Rightarrow> False | Some m \<Rightarrow> m < 1)
          then Inl ConfigValidationError
          else Inr \<lparr>value_REDIS_URL = u,
                 value_REDIS_CONNECTION_MAX_RETRIES =
                   (case REDIS_CONNECTION_MAX_RETRIES c of None \<Rightarrow> 10 | Some m \<Rightarrow> m),
                 value_REDIS_RETRY_DELAY_MS = REDIS_RETRY_DELAY_MS c,
                 value_REDIS_WORKERS =
                   (case REDIS_WORKERS c of None \<Rightarrow> 3 | Some n \<Rightarrow> n)\<rparr>)"

text \<open>
  The condition of \<open>if (value.REDIS_RETRY_DELAY_MS)\<close>: \<open>null\<close> and the number \<open>0\<close>
  are falsy, every other integer is truthy.
\<close>

fun truthy :: "int option \<Rightarrow> bool" where
  "truthy None = False"
| "truthy (Some d) = (d \<noteq> 0)"

text \<open>The closure bound to \<open>retryStrategy\<close>, for the validated delay.\<close>

definition retryStrategy_closure :: "int option \<Rightarrow> int \<Rightarrow> int" where
  "retryStrategy_closure delay retries =
     (if truthy delay then the delay else min (retries * 50) 2000)"

record RedisConfig =
  uri :: string
  hostname :: "string option"
  port :: "string option"
  retryStrategy :: "int \<Rightarrow> int"
  maxRetriesPerRequest :: int
  workerCount :: int

text \<open>
  \<open>parseConfig\<close>. \<open>url_parse\<close> stands for the platform's \<open>url.parse\<close> and gives the
  host name and the port of the URL.
\<close>

definition parseConfig ::
  "(string \<Rightarrow> bool) \<Rightarrow> (string \<Rightarrow> string option \<times> string option) \<Rightarrow>
   RedisConfigParam \<Rightarrow> config_error + RedisConfig" where
  "parseConfig redis_uri url_parse c =
     (case configValidator redis_uri c of
        Inl e \<Rightarrow> Inl e
      | Inr v \<Rightarrow>
          Inr \<lparr>uri = value_REDIS_URL v,
               hostname = fst (url_parse (value_REDIS_URL v)),
               port = snd (url_parse (value_REDIS_URL v)),
               retryStrategy = retryStrategy_closure (value_REDIS_RETRY_DELAY_MS v),
               maxRetriesPerRequest = value_REDIS_CONNECTION_MAX_RETRIES v,
               workerCount = value_REDIS_WORKERS v\<rparr>)"

subsection \<open>Concrete configurations\<close>

text \<open>Stand-ins for the two library functions, for the concrete configurations only.\<close>

definition has_redis_scheme :: "string \<Rightarrow> bool" where
  "has_redis_scheme u = (take 8 u = ''redis://'')"

definition localhost_6793 :: "string \<Rightarrow> string option \<times> string option" where
  "localhost_6793 u = (Some ''localhost'', Some ''6793'')"

definition config_default :: RedisConfigParam where
  "config_default = \<lparr>REDIS_URL = Some ''redis://localhost:6793'',
     REDIS_CONNECTION_MAX_RETRIES = None, REDIS_RETRY_DELAY_MS = None,
     REDIS_WORKERS = None\<rparr>"

definition config_delay_250 :: RedisConfigParam where
  "config_delay_250 = config_default\<lparr>REDIS_RETRY_DELAY_MS := Some 250\<rparr>"

definition config_delay_0 :: RedisConfigParam where
  "config_delay_0 = config_default\<lparr>REDIS_RETRY_DELAY_MS := Some 0\<rparr>"

section \<open>The client (RedisClient.js): listeners, handlers and shutdown\<close>

text \<open>The four member functions of the class that serve as event handlers.\<close>

datatype handler = ConnectHandler | ReconnectingHandler | ErrorHandler | LockClientErrorHandler

text \<open>
  Function objects. \<open>Method m\<close> is the function on the prototype, the value of
  \<open>this.m\<close>. \<open>m.bind(this)\<close> makes a new function object at every evaluation;
  \<open>Bound i m\<close> is the \<open>i\<close>-th one made. Equality of these terms is \<open>===\<close> of the
  function objects.
\<close>

datatype listener = Method handler | Bound nat handler

text \<open>
  An event emitter holds, for every event name, its listeners in the order of
  registration. \<open>removeListener\<close> removes the most recently added listener that is
  \<open>===\<close> to its argument, and nothing when there is none.
\<close>

type_synonym emitter = "string \<Rightarrow> listener list"

definition on :: "emitter \<Rightarrow> string \<Rightarrow> listener \<Rightarrow> emitter" where
  "on em ev f = em(ev := em ev @ [f])"

definition removeListener :: "emitter \<Rightarrow> string \<Rightarrow> listener \<Rightarrow> emitter" where
  "removeListener em ev f = em(ev := rev (remove1 f (rev (em ev))))"

text \<open>What the logger has been given: the level, and a message or the object \<open>{ err }\<close>.\<close>

datatype level = Trace | Debug | Info | Warn | Err | Fatal

datatype 'v logged = Message string | ErrObject 'v

record 'v client =
  logger :: "(level \<times> 'v logged) list"
  config :: RedisConfig
  redis :: emitter
  lockManager :: emitter
  bound :: nat
  quit_called :: bool

definition bind_this :: "handler \<Rightarrow> 'v client \<Rightarrow> listener \<times> 'v client" where
  "bind_this m c = (Bound (bound c) m, c\<lparr>bound := Suc (bound c)\<rparr>)"

definition registerRedisEventHandlers :: "'v client \<Rightarrow> 'v client" where
  "registerRedisEventHandlers c0 =
     (let (f1, c1) = bind_this ConnectHandler c0;
          c2 = c1\<lparr>redis := on (redis c1) ''connect'' f1\<rparr>;
          (f2, c3) = bind_this ReconnectingHandler c2;
          c4 = c3\<lparr>redis := on (redis c3) ''reconnecting'' f2\<rparr>;
          (f3, c5) = bind_this ErrorHandler c4;
          c6 = c5\<lparr>redis := on (redis c5) ''error'' f3\<rparr>;
          (f4, c7) = bind_this LockClientErrorHandler c6
      in c7\<lparr>lockManager := on (lockManager c7) ''clientError'' f4\<rparr>)"

definition unregisterRedisEventHandlers :: "'v client \<Rightarrow> 'v client" where
  "unregisterRedisEventHandlers c0 =
     (let c1 = c0\<lparr>lockManager :=
                 removeListener (lockManager c0) ''clientError'' (Method LockClientErrorHandler)\<rparr>;
          c2 = c1\<lparr>redis := removeListener (redis c1) ''connect'' (Method ConnectHandler)\<rparr>;
          c3 = c2\<lparr>redis := removeListener (redis c2) ''reconnecting'' (Method ReconnectingHandler)\<rparr>
      in c3\<lparr>redis := removeListener (redis c3) ''error'' (Method ErrorHandler)\<rparr>)"

text \<open>
  The constructor: parse the configuration (a validation error is thrown), make the store
  client and the lock manager, both without listeners of this class, and register the
  handlers.
\<close>

definition constructor ::
  "(string \<Rightarrow> bool) \<Rightarrow> (string \<Rightarrow> string option \<times> string option) \<Rightarrow>
   RedisConfigParam \<Rightarrow> config_error + 'v client" where
  "constructor redis_uri url_parse p =
     (case parseConfig redis_uri url_parse p of
        Inl e \<Rightarrow> Inl e
      | Inr cfg \<Rightarrow>
          Inr (registerRedisEventHandlers
                 \<lparr>logger = [], config = cfg, redis = (\<lambda>_. []), lockManager = (\<lambda>_. []),
                  bound = 0, quit_called = False\<rparr>))"

text \<open>
  \<open>shutdown\<close>. \<open>quit_error\<close> is what \<open>lockManager.quit\<close> hands to its callback:
  \<open>Some err\<close> when closing failed.
\<close>

definition shutdown :: "'v option \<Rightarrow> 'v client \<Rightarrow> ('v, unit) settled \<times> 'v client" where
  "shutdown quit_error c0 =
     (let c1 = unregisterRedisEventHandlers c0;
          c2 = c1\<lparr>quit_called := True\<rparr>
      in case quit_error of
           Some err \<Rightarrow> (Rejected err, c2)
         | None \<Rightarrow>
             (Fulfilled (),
              c2\<lparr>logger := logger c2 @ [(Warn, Message ''Connection to redis closed'')]\<rparr>))"

text \<open>
  The errors of the platform and of the store client; \<open>ReplyError\<close> carries the error
  reply of the store. \<open>Unmodelled\<close> is no error of JavaScript: it marks an input about
  which the model says nothing.
\<close>

datatype js_error =
    ReferenceError string
  | TypeError
  | SyntaxError
  | ReplyError string
  | Unmodelled

text \<open>
  \<open>connectHandler\<close>. Its argument is built from \<open>config.redis.uri\<close>, with the free
  identifier \<open>config\<close> and not \<open>this.config\<close>. RedisClient.js declares \<open>Promise\<close>,
  \<open>Redis\<close>, \<open>chalk\<close>, \<open>Redlock\<close>, \<open>parseConfig\<close> and \<open>RedisClient\<close> and nothing
  named \<open>config\<close>, so the identifier is looked up in the global object, \<open>global\<close> here,
  and a \<open>ReferenceError\<close> is thrown when it is not there. \<open>green_uri g\<close> stands for the
  evaluation of \<open>chalk.green(g.redis.uri)\<close> inside the template, which may throw too. The
  arguments are evaluated before \<open>logger.info\<close> is called.
\<close>

definition connectHandler ::
  "(string \<Rightarrow> 'g option) \<Rightarrow> ('g \<Rightarrow> js_error + string) \<Rightarrow> 'v client \<Rightarrow>
   js_error completion \<times> 'v client" where
  "connectHandler global green_uri c =
     (case global ''config'' of
        None \<Rightarrow> (Throw (ReferenceError ''config''), c)
      | Some g \<Rightarrow>
          (case green_uri g of
             Inl e \<Rightarrow> (Throw e, c)
           | Inr s \<Rightarrow>
               (Normal, c\<lparr>logger := logger c @ [(Info, Message (''Connected to redis '' @ s))]\<rparr>)))"

text \<open>\<open>errorHandler\<close> and \<open>lockClientErrorHandler\<close> log the error and a message.\<close>

definition errorHandler :: "'v \<Rightarrow> 'v client \<Rightarrow> 'v client" where
  "errorHandler err c =
     c\<lparr>logger := logger c @ [(Err, ErrObject err), (Err, Message ''Redis connection error'')]\<rparr>"

definition lockClientErrorHandler :: "'v \<Rightarrow> 'v client \<Rightarrow> 'v client" where
  "lockClientErrorHandler err c =
     c\<lparr>logger := logger c @ [(Err, ErrObject err), (Err, Message ''redlock error'')]\<rparr>"

subsection \<open>A concrete process\<close>

text \<open>A global object without a property \<open>config\<close>, as a plain Node.js process has it.\<close>

definition plain_global :: "string \<Rightarrow> unit option" where
  "plain_global name = None"

definition no_green :: "unit \<Rightarrow> js_error + string" where
  "no_green g = Inl TypeError"

section \<open>JSON (the platform's JSON.stringify and JSON.parse)\<close>

text \<open>
  The values that the commands carry. Numbers are the integers; strings are sequences of
  code units below 256; an object is the list of its properties in the order in which
  the engine enumerates them (\<open>OrdinaryOwnPropertyKeys\<close>). Fractions and code units
  above 255 are not values of the model.
\<close>

datatype json =
    JNull
  | JBool bool
  | JNum int
  | JStr string
  | JArr "json list"
  | JObj "(string \<times> json) list"

definition is_digit :: "char \<Rightarrow> bool" where
  "is_digit c = (48 \<le> (of_char c :: nat) \<and> (of_char c :: nat) \<le> 57)"

definition digit_val :: "char \<Rightarrow> nat" where
  "digit_val c = of_char c - 48"

text \<open>
  The order of the properties of an object: first the names that are array indices (the
  decimal numerals of the integers up to \<open>2^32 - 2\<close>, without a leading zero), by
  ascending value, then every other name in the order of creation.
\<close>

definition name_value :: "string \<Rightarrow> nat" where
  "name_value k = foldl (\<lambda>a c. 10 * a + digit_val c) 0 k"

definition is_index_name :: "string \<Rightarrow> bool" where
  "is_index_name k =
     (k \<noteq> [] \<and> (\<forall>c \<in> set k. is_digit c) \<and> (k = ''0'' \<or> hd k \<noteq> CHR ''0'')
      \<and> name_value k \<le> 4294967294)"

definition own_property_order :: "(string \<times> json) list \<Rightarrow> (string \<times> json) list" where
  "own_property_order ps =
     sort_key (\<lambda>p. name_value (fst p)) (filter (\<lambda>p. is_index_name (fst p)) ps)
     @ filter (\<lambda>p. \<not> is_index_name (fst p)) ps"

text \<open>
  \<open>js_value\<close> holds of the terms that stand for a value of JavaScript: a number is a
  safe integer (of magnitude below \<open>2^53\<close>, which JavaScript prints in decimal), no
  object has two properties of one name, and the properties of an object stand in the
  order of the engine.
\<close>

fun js_value :: "json \<Rightarrow> bool" where
  "js_value (JNum n) = (- 9007199254740992 < n \<and> n < 9007199254740992)"
| "js_value (JArr xs) = (\<forall>x \<in> set xs. js_value x)"
| "js_value (JObj ps) =
     (distinct (map fst ps) \<and> own_property_order ps = ps \<and> (\<forall>p \<in> set ps. js_value (snd p)))"
| "js_value _ = True"

subsection \<open>JSON.stringify\<close>

definition digit_char :: "nat \<Rightarrow> char" where
  "digit_char d = char_of (48 + d)"

fun digits :: "nat \<Rightarrow> string" where
  "digits n = (if n < 10 then [digit_char n] else digits (n div 10) @ [digit_char (n mod 10)])"

declare digits.simps [simp del]

definition hex_char :: "nat \<Rightarrow> char" where
  "hex_char d = (if d < 10 then char_of (48 + d) else char_of (87 + d))"

text \<open>
  QuoteJSONString: the quotation mark and the reverse solidus are escaped, the control
  characters are written as \<open>\b\<close>, \<open>\t\<close>, \<open>\n\<close>, \<open>\f\<close>, \<open>\r\<close> or as \<open>\u00XX\<close> with
  lower-case hexadecimal digits, and every other code unit stands for itself.
\<close>

definition escape :: "char \<Rightarrow> string" where
  "escape c =
     (if c = CHR 0x22 then [CHR 0x5C, CHR 0x22]
      else if c = CHR 0x5C then [CHR 0x5C, CHR 0x5C]
      else if c = CHR 0x08 then [CHR 0x5C, CHR ''b'']
      else if c = CHR 0x09 then [CHR 0x5C, CHR ''t'']
      else if c = CHR 0x0A then [CHR 0x5C, CHR ''n'']
      else if c = CHR 0x0C then [CHR 0x5C, CHR ''f'']
      else if c = CHR 0x0D then [CHR 0x5C, CHR ''r'']
      else if (of_char c :: nat) < 32 then
        [CHR 0x5C, CHR ''u'', CHR ''0'', CHR ''0'',
         hex_char (of_char c div 16), hex_char (of_char c mod 16)]
      else [c])"

definition quote :: "string \<Rightarrow> string" where
  "quote s = CHR 0x22 # concat (map escape s) @ [CHR 0x22]"

fun commas :: "string list \<Rightarrow> string" where
  "commas [] = []"
| "commas [s] = s"
| "commas (s # t # ts) = s @ CHR '','' # commas (t # ts)"

text \<open>\<open>JSON.stringify(value)\<close> with one argument: no indentation, no white space.\<close>

fun JSON_stringify :: "json \<Rightarrow> string" where
  "JSON_stringify JNull = ''null''"
| "JSON_stringify (JBool b) = (if b then ''true'' else ''false'')"
| "JSON_stringify (JNum n) = (if n < 0 then CHR ''-'' # digits (nat (- n)) else digits (nat n))"
| "JSON_stringify (JStr s) = quote s"
| "JSON_stringify (JArr xs) = CHR ''['' # commas (map JSON_stringify xs) @ '']''"
| "JSON_stringify (JObj ps) =
     CHR ''{'' # commas (map (\<lambda>p. quote (fst p) @ CHR '':'' # JSON_stringify (snd p)) ps) @ ''}''"

subsection \<open>JSON.parse\<close>

text \<open>
  The result of a parser: a value and the text after it; \<open>Malformed\<close> for a text that
  JSON.parse rejects with a SyntaxError; \<open>Outside\<close> for a text that leaves the model (a
  fraction, an exponent, an escape of a code unit above 255), about which the model says
  nothing.
\<close>

datatype 'a parsed = Parsed 'a string | Malformed | Outside

definition is_ws :: "char \<Rightarrow> bool" where
  "is_ws c = (c = CHR 0x20 \<or> c = CHR 0x09 \<or> c = CHR 0x0A \<or> c = CHR 0x0D)"

definition skip_ws :: "string \<Rightarrow> string" where
  "skip_ws s = dropWhile is_ws s"

definition parse_nat :: "string \<Rightarrow> nat parsed" where
  "parse_nat s =
     (let ds = takeWhile is_digit s; r = dropWhile is_digit s
      in if ds = [] then Malformed
         else if hd ds = CHR ''0'' \<and> 1 < length ds then Malformed
         else if (case r of [] \<Rightarrow> False
                  | c # _ \<Rightarrow> c = CHR ''.'' \<or> c = CHR ''e'' \<or> c = CHR ''E'') then Outside
         else Parsed (foldl (\<lambda>a c. 10 * a + digit_val c) 0 ds) r)"

definition parse_number :: "string \<Rightarrow> json parsed" where
  "parse_number s =
     (case s of
        [] \<Rightarrow> Malformed
      | c # r \<Rightarrow>
          if c = CHR ''-'' then map_parsed (\<lambda>n. JNum (- int n)) (parse_nat r)
          else map_parsed (\<lambda>n. JNum (int n)) (parse_nat s))"

definition hex_val :: "char \<Rightarrow> nat option" where
  "hex_val c =
     (let n = (of_char c :: nat)
      in if 48 \<le> n \<and> n \<le> 57 then Some (n - 48)
         else if 97 \<le> n \<and> n \<le> 102 then Some (n - 87)
         else if 65 \<le> n \<and> n \<le> 70 then Some (n - 55)
         else None)"

definition unescape :: "char \<Rightarrow> char option" where
  "unescape e =
     (if e = CHR 0x22 then Some (CHR 0x22)
      else if e = CHR 0x5C then Some (CHR 0x5C)
      else if e = CHR ''/'' then Some (CHR ''/'')
      else if e = CHR ''b'' then Some (CHR 0x08)
      else if e = CHR ''t'' then Some (CHR 0x09)
      else if e = CHR ''n'' then Some (CHR 0x0A)
      else if e = CHR ''f'' then Some (CHR 0x0C)
      else if e = CHR ''r'' then Some (CHR 0x0D)
      else None)"

text \<open>The characters of a string, after its opening quotation mark.\<close>

fun parse_chars :: "string \<Rightarrow> string parsed" where
  "parse_chars [] = Malformed"
| "parse_chars (c # r) =
     (if c = CHR 0x22 then Parsed [] r
      else if c = CHR 0x5C then
        (case r of
           [] \<Rightarrow> Malformed
         | e # r1 \<Rightarrow>
             if e = CHR ''u'' then
               (case r1 of
                  a # b # c' # d # r2 \<Rightarrow>
                    (case (hex_val a, hex_val b, hex_val c', hex_val d) of
                       (Some h3, Some h2, Some h1, Some h0) \<Rightarrow>
                         if h3 = 0 \<and> h2 = 0
                         then map_parsed ((#) (char_of (16 * h1 + h0))) (parse_chars r2)
                         else Outside
                     | _ \<Rightarrow> Malformed)
                | _ \<Rightarrow> Malformed)
             else
               (case unescape e of
                  None \<Rightarrow> Malformed
                | Some ch \<Rightarrow> map_parsed ((#) ch) (parse_chars r1)))
      else if (of_char c :: nat) < 32 then Malformed
      else map_parsed ((#) c) (parse_chars r))"

text \<open>
  Properties are created in the order of the text; a repeated name overwrites the value
  of the property that is already there. The object lists them in the order of the
  engine.
\<close>

fun put :: "string \<Rightarrow> json \<Rightarrow> (string \<times> json) list \<Rightarrow> (string \<times> json) list" where
  "put k v [] = [(k, v)]"
| "put k v (p # ps) = (if fst p = k then (k, v) # ps else p # put k v ps)"

definition object_of :: "(string \<times> json) list \<Rightarrow> json" where
  "object_of ms = JObj (own_property_order (foldl (\<lambda>ps m. put (fst m) (snd m) ps) [] ms))"

text \<open>
  The recursive descent over values, the elements of an array after its first bracket and
  the members of an object after its first brace. The first argument bounds the number of
  nested calls; \<open>JSON_parse\<close> starts with more than the length of the text.
\<close>

fun parse_value :: "nat \<Rightarrow> string \<Rightarrow> json parsed"
  and parse_elements :: "nat \<Rightarrow> string \<Rightarrow> json list parsed"
  and parse_members :: "nat \<Rightarrow> string \<Rightarrow> (string \<times> json) list parsed" where
  "parse_value 0 s = Outside"
| "parse_value (Suc n) s =
     (case skip_ws s of
        [] \<Rightarrow> Malformed
      | c # r \<Rightarrow>
          if c = CHR ''n'' then
            (if take 3 r = ''ull'' then Parsed JNull (drop 3 r) else Malformed)
          else if c = CHR ''t'' then
            (if take 3 r = ''rue'' then Parsed (JBool True) (drop 3 r) else Malformed)
          else if c = CHR ''f'' then
            (if take 4 r = ''alse'' then Parsed (JBool False) (drop 4 r) else Malformed)
          else if c = CHR 0x22 then map_parsed JStr (parse_chars r)
          else if c = CHR ''['' then
            (case skip_ws r of
               [] \<Rightarrow> Malformed
             | c' # r' \<Rightarrow>
                 if c' = CHR '']'' then Parsed (JArr []) r'
                 else map_parsed JArr (parse_elements n r))
          else if c = CHR ''{'' then
            (case skip_ws r of
               [] \<Rightarrow> Malformed
             | c' # r' \<Rightarrow>
                 if c' = CHR ''}'' then Parsed (JObj []) r'
                 else map_parsed object_of (parse_members n r))
          else if c = CHR ''-'' \<or> is_digit c then parse_number (c # r)
          else Malformed)"
| "parse_elements 0 s = Outside"
| "parse_elements (Suc n) s =
     (case parse_value n s of
        Parsed v r \<Rightarrow>
          (case skip_ws r of
             [] \<Rightarrow> Malformed
           | c # r' \<Rightarrow>
               if c = CHR '','' then map_parsed ((#) v) (parse_elements n r')
               else if c = CHR '']'' then Parsed [v] r'
               else Malformed)
      | Malformed \<Rightarrow> Malformed
      | Outside \<Rightarrow> Outside)"
| "parse_members 0 s = Outside"
| "parse_members (Suc n) s =
     (case skip_ws s of
        [] \<Rightarrow> Malformed
      | q # r \<Rightarrow>
          if q \<noteq> CHR 0x22 then Malformed
          else
            (case parse_chars r of
               Parsed k r1 \<Rightarrow>
                 (case skip_ws r1 of
                    [] \<Rightarrow> Malformed
                  | c # r2 \<Rightarrow>
                      if c \<noteq> CHR '':'' then Malformed
                      else
                        (case parse_value n r2 of
                           Parsed v r3 \<Rightarrow>
                             (case skip_ws r3 of
                                [] \<Rightarrow> Malformed
                              | c' # r4 \<Rightarrow>
                                  if c' = CHR '','' then
                                    map_parsed ((#) (k, v)) (parse_members n r4)
                                  else if c' = CHR ''}'' then Parsed [(k, v)] r4
                                  else Malformed)
                         | Malformed \<Rightarrow> Malformed
                         | Outside \<Rightarrow> Outside))
             | Malformed \<Rightarrow> Malformed
             | Outside \<Rightarrow> Outside))"

text \<open>
  ToString, which JSON.parse applies to its argument: \<open>null\<close> becomes the text
  \<open>null\<close>, a string is its own text, an array the texts of its elements joined by
  commas with nothing for \<open>null\<close>.
\<close>

fun ToString :: "json \<Rightarrow> string" where
  "ToString JNull = ''null''"
| "ToString (JBool b) = (if b then ''true'' else ''false'')"
| "ToString (JNum n) = (if n < 0 then CHR ''-'' # digits (nat (- n)) else digits (nat n))"
| "ToString (JStr s) = s"
| "ToString (JArr xs) = commas (map (\<lambda>x. if x = JNull then [] else ToString x) xs)"
| "ToString (JObj ps) = ''[object Object]''"

definition JSON_parse :: "json \<Rightarrow> js_error + json" where
  "JSON_parse arg =
     (let text = ToString arg
      in case parse_value (Suc (length text)) text of
           Parsed v r \<Rightarrow> if skip_ws r = [] then Inr v else Inl SyntaxError
         | Malformed \<Rightarrow> Inl SyntaxError
         | Outside \<Rightarrow> Inl Unmodelled)"

subsection \<open>Notions for the proofs about JSON\<close>

text \<open>
  A text after a number neither continues the number nor turns it into a fraction; the
  characters a JSON text can start with; the text of one member of an object.
\<close>

definition num_stop :: "string \<Rightarrow> bool" where
  "num_stop r = (case r of [] \<Rightarrow> True
     | c # _ \<Rightarrow> \<not> is_digit c \<and> c \<noteq> CHR ''.'' \<and> c \<noteq> CHR ''e'' \<and> c \<noteq> CHR ''E'')"

definition start_char :: "char \<Rightarrow> bool" where
  "start_char c = (c = CHR ''n'' \<or> c = CHR ''t'' \<or> c = CHR ''f'' \<or> c = CHR 0x22
     \<or> c = CHR ''['' \<or> c = CHR ''{'' \<or> c = CHR ''-'' \<or> is_digit c)"

definition member_text :: "string \<times> json \<Rightarrow> string" where
  "member_text p = quote (fst p) @ CHR '':'' # JSON_stringify (snd p)"

section \<open>The commands (RedisClient.js: get, set, del, scan, deleteByPattern)\<close>

text \<open>
  The string keys of the store. The commands of this section are taken to reach the
  store.
\<close>

type_synonym store = "string \<Rightarrow> string option"

subsection \<open>The store client\<close>

text \<open>
  An argument of a command, as the client is called with it: a string, or an array of
  arguments. The client flattens the list of its arguments by one level and sends each of
  the arguments that remain as a string: a string as it is, an array as \<open>String\<close> makes
  it, the strings of its elements joined by commas.
\<close>

datatype arg = Str string | Arr "arg list"

fun arg_text :: "arg \<Rightarrow> string" where
  "arg_text (Str s) = s"
| "arg_text (Arr as) = commas (map arg_text as)"

fun spread :: "arg \<Rightarrow> arg list" where
  "spread (Str s) = [Str s]"
| "spread (Arr as) = as"

definition flatten_once :: "arg list \<Rightarrow> arg list" where
  "flatten_once as = concat (map spread as)"

definition command_args :: "arg list \<Rightarrow> string list" where
  "command_args as = map arg_text (flatten_once as)"

text \<open>
  A value as an argument: \<open>null\<close> is sent as the empty string, an array is an array of
  arguments, every other value is sent as \<open>String\<close> makes it.
\<close>

fun arg_of :: "json \<Rightarrow> arg" where
  "arg_of (JStr s) = Str s"
| "arg_of (JArr xs) = Arr (map arg_of xs)"
| "arg_of JNull = Str []"
| "arg_of v = Str (ToString v)"

text \<open>\<open>redis.get\<close> answers \<open>null\<close> for an absent key and the stored string otherwise.\<close>

definition redis_get :: "store \<Rightarrow> string \<Rightarrow> json" where
  "redis_get st key = (case st key of None \<Rightarrow> JNull | Some s \<Rightarrow> JStr s)"

definition wrong_number_of_arguments :: "string \<Rightarrow> string" where
  "wrong_number_of_arguments cmd = ''ERR wrong number of arguments for '' @ cmd"

text \<open>
  \<open>redis.set\<close>. SET with a key and a value stores the value; with less it is refused;
  what it does with more arguments depends on its options, which are not modelled.
\<close>

definition redis_set :: "arg list \<Rightarrow> store \<Rightarrow> (js_error, unit) settled \<times> store" where
  "redis_set as st =
     (case command_args as of
        [] \<Rightarrow> (Rejected (ReplyError (wrong_number_of_arguments ''set'')), st)
      | [k] \<Rightarrow> (Rejected (ReplyError (wrong_number_of_arguments ''set'')), st)
      | [k, v] \<Rightarrow> (Fulfilled (), st(k \<mapsto> v))
      | _ \<Rightarrow> (Rejected Unmodelled, st))"

text \<open>
  \<open>redis.del\<close>. DEL without a key is refused; otherwise DEL removes the keys and
  replies with the number of keys that were there.
\<close>

fun store_del :: "string list \<Rightarrow> store \<Rightarrow> nat \<times> store" where
  "store_del [] st = (0, st)"
| "store_del (k # ks) st =
     (let (n, st') = store_del ks (st(k := None))
      in ((if st k = None then 0 else 1) + n, st'))"

definition redis_del :: "arg list \<Rightarrow> store \<Rightarrow> (js_error, int) settled \<times> store" where
  "redis_del as st =
     (if command_args as = [] then (Rejected (ReplyError (wrong_number_of_arguments ''del'')), st)
      else (Fulfilled (int (fst (store_del (command_args as) st))),
            snd (store_del (command_args as) st)))"

subsection \<open>The wrappers\<close>

text \<open>\<open>get(key, json = true)\<close>.\<close>

definition get :: "string \<Rightarrow> bool \<Rightarrow> store \<Rightarrow> (js_error, json) settled" where
  "get key json st =
     (let res = redis_get st key
      in if json then (case JSON_parse res of Inl e \<Rightarrow> Rejected e | Inr v \<Rightarrow> Fulfilled v)
         else Fulfilled res)"

text \<open>\<open>set(key, value, json = true)\<close>.\<close>

definition set' ::
  "string \<Rightarrow> json \<Rightarrow> bool \<Rightarrow> store \<Rightarrow> (js_error, unit) settled \<times> store" where
  "set' key val json st =
     (let val' = (if json then JStr (JSON_stringify val) else val)
      in redis_set [Str key, arg_of val'] st)"

text \<open>
  \<open>del(...keys)\<close> collects its arguments in the array \<open>keys\<close> and hands that array to
  \<open>redis.del\<close> as its one argument.
\<close>

definition del :: "arg list \<Rightarrow> store \<Rightarrow> (js_error, int) settled \<times> store" where
  "del keys st = redis_del [Arr keys] st"

text \<open>
  \<open>scan\<close>. The stream of \<open>redis.scanStream\<close> emits batches of keys, errors and its
  end. The promise is settled by the first error or by the end, whichever comes first;
  it stays pending, \<open>None\<close>, when neither comes.
\<close>

datatype 'e stream_event = Data "string list" | StreamError 'e | End

fun scan_events :: "'e stream_event list \<Rightarrow> string list \<Rightarrow> ('e, string list) settled option" where
  "scan_events [] keys = None"
| "scan_events (Data ks # evs) keys = scan_events evs (keys @ ks)"
| "scan_events (StreamError err # evs) keys = Some (Rejected err)"
| "scan_events (End # evs) keys = Some (Fulfilled keys)"

definition scan ::
  "(string \<Rightarrow> 'e stream_event list) \<Rightarrow> string \<Rightarrow> ('e, string list) settled option" where
  "scan scanStream pattern = scan_events (scanStream pattern) []"

text \<open>
  \<open>deleteByPattern\<close>: the array of the scanned keys is the one argument of \<open>del\<close>,
  whatever its length.
\<close>

definition deleteByPattern ::
  "(string \<Rightarrow> js_error stream_event list) \<Rightarrow> string \<Rightarrow> store \<Rightarrow>
   ((js_error, int) settled \<times> store) option" where
  "deleteByPattern scanStream pattern st =
     (case scan scanStream pattern of
        None \<Rightarrow> None
      | Some (Rejected err) \<Rightarrow> Some (Rejected err, st)
      | Some (Fulfilled keys) \<Rightarrow> Some (del [Arr (map Str keys)] st))"

subsection \<open>Concrete stores and scans\<close>



definition store_k1_k2 :: store where
  "store_k1_k2 = Map.empty(''k1'' \<mapsto> ''1'', ''k2'' \<mapsto> ''2'')"

definition scan_k1_k2 :: "string \<Rightarrow> js_error stream_event list" where
  "scan_k1_k2 pattern = [Data [''k1'', ''k2''], End]"

chapter \<open>Properties\<close>

section \<open>Properties of the protected mutation\<close>

lemma releases_start [simp]: "releases [Acquire k t, Mutate] = 0"
  by (simp add: releases_def)

lemma callbacks_start [simp]: "callbacks [Acquire k t, Mutate] = 0"
  by (simp add: callbacks_def)

lemma handleUnlock_first:
  "handleUnlock w [Acquire k t, Mutate] =
     (case unlock_result w 0 of
        None \<Rightarrow> (Normal, [Acquire k t, Mutate, Release])
      | Some err \<Rightarrow>
          (case callback w of
             Some f \<Rightarrow>
               (case f 0 err of
                  None \<Rightarrow> (Normal, [Acquire k t, Mutate, Release, Callback err])
                | Some c \<Rightarrow> (Throw c, [Acquire k t, Mutate, Release, Callback err]))
           | None \<Rightarrow> (Normal, [Acquire k t, Mutate, Release, LogError err])))"
  by (simp add: handleUnlock_def split: option.splits)

lemma handleUnlock_second:
  "handleUnlock w [Acquire k t, Mutate, Release, Callback e] =
     (case unlock_result w 1 of
        None \<Rightarrow> (Normal, [Acquire k t, Mutate, Release, Callback e, Release])
      | Some err \<Rightarrow>
          (case callback w of
             Some f \<Rightarrow>
               (case f 1 err of
                  None \<Rightarrow> (Normal, [Acquire k t, Mutate, Release, Callback e, Release, Callback err])
                | Some c \<Rightarrow> (Throw c, [Acquire k t, Mutate, Release, Callback e, Release, Callback err]))
           | None \<Rightarrow> (Normal, [Acquire k t, Mutate, Release, Callback e, Release, LogError err])))"
  by (simp add: handleUnlock_def releases_def callbacks_def split: option.splits)

lemma handleUnlock_quiet:
  assumes "\<not> callback_throws w"
  shows "fst (handleUnlock w [Acquire k t, Mutate]) = Normal"
  using assms
  by (auto simp: handleUnlock_first callback_throws_def split: option.splits)

lemma pm_quiet:
  assumes "lock_result w k t = None" and "\<not> callback_throws w"
  shows "fst (protectedMutation w k t) = Fulfilled (outcome (mutationFn w))"
proof -
  obtain tr where h: "handleUnlock w [Acquire k t, Mutate] = (Normal, tr)"
    using handleUnlock_quiet [OF assms(2), of k t]
    by (cases "handleUnlock w [Acquire k t, Mutate]") simp
  show ?thesis
    by (cases "mutationFn w") (simp_all add: protectedMutation_def catch_block_def assms(1) h)
qed

lemma pm_locked:
  assumes "lock_result w k t = Some e"
  shows "protectedMutation w k t = (Rejected e, [Acquire k t])"
  by (simp add: protectedMutation_def assms)

text \<open>
  C1, counterexample. The lock is acquired, the mutation rejects with \<open>Err1\<close>, the release
  fails and the supplied callback throws \<open>CbErr\<close>: the promise rejects with \<open>CbErr\<close>,
  although the acquisition succeeded.
\<close>

theorem C1_rejects_after_acquisition:
  "lock_result world_reject_throw ''R'' 10000 = None \<and>
   fst (protectedMutation world_reject_throw ''R'' 10000) = Rejected ''CbErr''"
  by (simp add: world_reject_throw_def protectedMutation_def catch_block_def handleUnlock_first)

text \<open>
  C1, as amended. A call that acquires the lock and whose release-failure callback does
  not throw fulfills with the value the mutation resolved to or with the error it raised;
  such a call rejects only when the acquisition fails; and a call whose acquisition fails
  rejects with the acquisition's error without ever invoking the mutation function.
\<close>

theorem C1_outcome_is_a_value:
  "(lock_result w k t = None \<and> \<not> callback_throws w \<longrightarrow>
      fst (protectedMutation w k t) = Fulfilled (outcome (mutationFn w)))
   \<and> (\<forall>e. fst (protectedMutation w k t) = Rejected e \<and> \<not> callback_throws w \<longrightarrow>
          lock_result w k t = Some e)
   \<and> (\<forall>e. lock_result w k t = Some e \<longrightarrow>
          fst (protectedMutation w k t) = Rejected e
        \<and> Mutate \<notin> set (snd (protectedMutation w k t)))"
proof (cases "lock_result w k t")
  case None
  show ?thesis
  proof (cases "callback_throws w")
    case True
    then show ?thesis by (simp add: None)
  next
    case False
    then show ?thesis using pm_quiet [OF None False] by (simp add: None)
  qed
next
  case (Some e)
  then show ?thesis by (simp add: pm_locked)
qed

theorem C1_outcome_is_a_value_witness:
  "lock_result world_handled ''R'' 10000 = None
   \<and> \<not> callback_throws world_handled
   \<and> fst (protectedMutation world_handled ''R'' 10000) = Fulfilled ''Err1''
   \<and> lock_result world_locked ''R'' 10000 = Some ''LockError''
   \<and> \<not> callback_throws world_locked
   \<and> fst (protectedMutation world_locked ''R'' 10000) = Rejected ''LockError''
   \<and> Mutate \<notin> set (snd (protectedMutation world_locked ''R'' 10000))"
proof -
  have a: "\<not> callback_throws world_handled"
    by (simp add: callback_throws_def world_handled_def)
  have b: "\<not> callback_throws world_locked"
    by (simp add: callback_throws_def world_locked_def)
  have c: "lock_result world_handled ''R'' 10000 = None"
    by (simp add: world_handled_def)
  have d: "lock_result world_locked ''R'' 10000 = Some ''LockError''"
    by (simp add: world_locked_def)
  have e: "outcome (mutationFn world_handled) = ''Err1''"
    by (simp add: world_handled_def)
  have f: "fst (protectedMutation world_handled ''R'' 10000) = Fulfilled ''Err1''"
    using C1_outcome_is_a_value [of world_handled "''R''" 10000] a c e by metis
  have g: "fst (protectedMutation world_locked ''R'' 10000) = Rejected ''LockError''
          \<and> Mutate \<notin> set (snd (protectedMutation world_locked ''R'' 10000))"
    using C1_outcome_is_a_value [of world_locked "''R''" 10000] d by blast
  show ?thesis
    using a b c d f g by blast
qed

text \<open>
  Scenario C of the specification: the mutation throws \<open>Err1\<close>; the call fulfills
  with \<open>Err1\<close> after one release attempt.
\<close>

lemma scenario_C:
  "protectedMutation world_C ''R'' 10000 =
     (Fulfilled ''Err1'', [Acquire ''R'' 10000, Mutate, Release])"
  by (simp add: world_C_def protectedMutation_def catch_block_def handleUnlock_first)

text \<open>
  The number of release attempts of a call that acquired the lock: two when the mutation
  resolved and the callback threw on the first release error, one in every other case.
\<close>

lemma pm_releases:
  assumes "lock_result w k t = None"
  shows "releases (snd (protectedMutation w k t)) =
           (if \<not> failed (mutationFn w) \<and> callback_throws w then 2 else 1)"
proof (cases "mutationFn w")
  case (Resolves v)
  then show ?thesis
    using assms
    by (auto simp: protectedMutation_def catch_block_def handleUnlock_first handleUnlock_second
        callback_throws_def releases_def split: option.splits)
next
  case (ThrowsSync e)
  then show ?thesis
    using assms
    by (auto simp: protectedMutation_def catch_block_def handleUnlock_first
        callback_throws_def releases_def split: option.splits)
next
  case (RejectsAsync e)
  then show ?thesis
    using assms
    by (auto simp: protectedMutation_def catch_block_def handleUnlock_first
        callback_throws_def releases_def split: option.splits)
qed

text \<open>
  C2, at the failing input. The lock is acquired, the mutation resolves with \<open>done\<close>, the
  first release fails and the supplied callback throws: the rejection of \<open>handleUnlock\<close>
  is raised inside the \<open>try\<close>, the \<open>catch\<close> block runs and releases again. The call
  makes one acquire attempt and two release attempts, and fulfills with the callback's
  error.
\<close>

theorem C2_releases_twice:
  "protectedMutation world_resolve_throw ''R'' 10000 =
     (Fulfilled ''CbErr'', [Acquire ''R'' 10000, Mutate, Release, Callback ''RelErr'', Release])"
  by (simp add: world_resolve_throw_def protectedMutation_def catch_block_def
      handleUnlock_first handleUnlock_second)

text \<open>
  C3, counterexample. The mutation throws \<open>Err1\<close>, the release fails with \<open>RelErr\<close> and
  the supplied callback is invoked with \<open>RelErr\<close> and throws \<open>CbErr\<close>: the promise does
  not fulfill with \<open>Err1\<close>, it rejects with \<open>CbErr\<close>.
\<close>

theorem C3_outcome_lost:
  "lock_result world_sync_throw ''R'' 10000 = None \<and>
   unlock_result world_sync_throw 0 = Some ''RelErr'' \<and>
   outcome (mutationFn world_sync_throw) = ''Err1'' \<and>
   protectedMutation world_sync_throw ''R'' 10000 =
     (Rejected ''CbErr'', [Acquire ''R'' 10000, Mutate, Release, Callback ''RelErr''])"
  by (simp add: world_sync_throw_def protectedMutation_def catch_block_def handleUnlock_first)

text \<open>
  C3, as amended. In a call that acquired the lock and whose release attempt fails with
  \<open>err\<close>: a supplied callback is invoked with \<open>err\<close> (and nothing is logged), and when it
  returns the promise fulfills with the unchanged outcome of the mutation; without a
  callback \<open>err\<close> is logged through the logger and the promise fulfills with the
  unchanged outcome of the mutation.
\<close>

theorem C3_release_failure_reported:
  assumes "lock_result w k t = None" and "unlock_result w 0 = Some err"
  shows "(\<forall>f. callback w = Some f \<longrightarrow>
            take 4 (snd (protectedMutation w k t)) = [Acquire k t, Mutate, Release, Callback err]
          \<and> (f 0 err = None \<longrightarrow>
               protectedMutation w k t =
                 (Fulfilled (outcome (mutationFn w)), [Acquire k t, Mutate, Release, Callback err])))
       \<and> (callback w = None \<longrightarrow>
            protectedMutation w k t =
              (Fulfilled (outcome (mutationFn w)), [Acquire k t, Mutate, Release, LogError err]))"
proof (cases "callback w")
  case None
  then show ?thesis
    by (cases "mutationFn w")
      (simp_all add: protectedMutation_def catch_block_def handleUnlock_first assms)
next
  case (Some f)
  show ?thesis
  proof (cases "f 0 err")
    case None
    then show ?thesis
      by (cases "mutationFn w")
        (simp_all add: protectedMutation_def catch_block_def handleUnlock_first assms Some)
  next
    case (Some c)
    note fc = Some
    show ?thesis
    proof (cases "mutationFn w")
      case (Resolves v)
      then show ?thesis
        by (simp add: protectedMutation_def catch_block_def handleUnlock_first
            handleUnlock_second assms \<open>callback w = Some f\<close> fc split: option.splits)
    next
      case (ThrowsSync e)
      then show ?thesis
        by (simp add: protectedMutation_def catch_block_def handleUnlock_first assms
            \<open>callback w = Some f\<close> fc)
    next
      case (RejectsAsync e)
      then show ?thesis
        by (simp add: protectedMutation_def catch_block_def handleUnlock_first assms
            \<open>callback w = Some f\<close> fc)
    qed
  qed
qed

theorem C3_release_failure_reported_witness:
  "lock_result world_handled ''R'' 10000 = None
   \<and> unlock_result world_handled 0 = Some ''RelErr''
   \<and> (\<exists>f. callback world_handled = Some f \<and> f 0 ''RelErr'' = None)
   \<and> protectedMutation world_handled ''R'' 10000 =
       (Fulfilled ''Err1'', [Acquire ''R'' 10000, Mutate, Release, Callback ''RelErr''])
   \<and> lock_result world_logged ''R'' 10000 = None
   \<and> unlock_result world_logged 0 = Some ''RelErr''
   \<and> callback world_logged = None
   \<and> protectedMutation world_logged ''R'' 10000 =
       (Fulfilled ''done'', [Acquire ''R'' 10000, Mutate, Release, LogError ''RelErr''])"
proof -
  have a: "lock_result world_handled ''R'' 10000 = None"
    and b: "unlock_result world_handled 0 = Some ''RelErr''"
    and c: "callback world_handled = Some (\<lambda>_ _. None)"
    and d: "outcome (mutationFn world_handled) = ''Err1''"
    by (simp_all add: world_handled_def)
  have a': "lock_result world_logged ''R'' 10000 = None"
    and b': "unlock_result world_logged 0 = Some ''RelErr''"
    and c': "callback world_logged = None"
    and d': "outcome (mutationFn world_logged) = ''done''"
    by (simp_all add: world_logged_def)
  have e: "protectedMutation world_handled ''R'' 10000 =
       (Fulfilled ''Err1'', [Acquire ''R'' 10000, Mutate, Release, Callback ''RelErr''])"
    using C3_release_failure_reported [OF a b] c d by simp
  have e': "protectedMutation world_logged ''R'' 10000 =
       (Fulfilled ''done'', [Acquire ''R'' 10000, Mutate, Release, LogError ''RelErr''])"
    using C3_release_failure_reported [OF a' b'] c' d' by simp
  have f: "\<exists>f. callback world_handled = Some f \<and> f 0 ''RelErr'' = None"
    using c by simp
  show ?thesis
    using a b f e a' b' c' e' by blast
qed

text \<open>
  Where the callback's error goes. After a mutation that threw or rejected, the release
  is attempted in the \<open>catch\<close> block and nothing catches the callback's error: the
  promise rejects with it. After a mutation that resolved, the callback's error is caught
  by the \<open>catch\<close> of \<open>protectedMutation\<close>, which releases again: the promise rejects
  only when that second release fails too and the callback throws again.
\<close>

lemma callback_error_after_failure:
  assumes "lock_result w k t = None" and "failed (mutationFn w)"
    and "unlock_result w 0 = Some err" and "callback w = Some f" and "f 0 err = Some c"
  shows "protectedMutation w k t =
           (Rejected c, [Acquire k t, Mutate, Release, Callback err])"
  using assms
  by (cases "mutationFn w")
    (simp_all add: protectedMutation_def catch_block_def handleUnlock_first)

lemma callback_error_after_success:
  assumes "lock_result w k t = None" and "mutationFn w = Resolves v"
    and "unlock_result w 0 = Some err" and "callback w = Some f" and "f 0 err = Some c"
  shows "protectedMutation w k t =
           (case unlock_result w 1 of
              None \<Rightarrow>
                (Fulfilled c, [Acquire k t, Mutate, Release, Callback err, Release])
            | Some err' \<Rightarrow>
                (case f 1 err' of
                   None \<Rightarrow>
                     (Fulfilled c,
                      [Acquire k t, Mutate, Release, Callback err, Release, Callback err'])
                 | Some c' \<Rightarrow>
                     (Rejected c',
                      [Acquire k t, Mutate, Release, Callback err, Release, Callback err'])))"
  using assms
  by (simp add: protectedMutation_def catch_block_def handleUnlock_first handleUnlock_second
      split: option.splits)

text \<open>
  C4, at the failing input. The mutation resolves, the release fails and the supplied
  callback throws \<open>CbErr\<close>; the error is caught by the \<open>catch\<close> of
  \<open>protectedMutation\<close>, whose own release succeeds: the promise does not reject with
  the callback's error, it fulfills with \<open>CbErr\<close>.
\<close>

theorem C4_fulfills_with_callback_error:
  "lock_result world_resolve_throw ''R'' 10000 = None \<and>
   unlock_result world_resolve_throw 0 = Some ''RelErr'' \<and>
   callback_throws world_resolve_throw \<and>
   fst (protectedMutation world_resolve_throw ''R'' 10000) = Fulfilled ''CbErr''"
  by (simp add: world_resolve_throw_def protectedMutation_def catch_block_def
      handleUnlock_first handleUnlock_second callback_throws_def)

section \<open>Properties of the retry strategy\<close>

lemma parseConfig_retryStrategy:
  assumes "parseConfig redis_uri url_parse c = Inr cfg"
  shows "retryStrategy cfg = retryStrategy_closure (REDIS_RETRY_DELAY_MS c)"
  using assms
  by (auto simp: parseConfig_def configValidator_def split: sum.splits option.splits if_splits)

text \<open>
  What does hold: a configured delay other than \<open>0\<close> is returned for every attempt
  count, and without a configured delay the strategy returns \<open>min (n * 50) 2000\<close>.
\<close>

lemma retryStrategy_nonzero_override:
  assumes "parseConfig redis_uri url_parse c = Inr cfg"
    and "REDIS_RETRY_DELAY_MS c = Some d" and "d \<noteq> 0"
  shows "retryStrategy cfg n = d"
  using assms by (simp add: parseConfig_retryStrategy [OF assms(1)] retryStrategy_closure_def)

lemma retryStrategy_unset:
  assumes "parseConfig redis_uri url_parse c = Inr cfg"
    and "REDIS_RETRY_DELAY_MS c = None"
  shows "retryStrategy cfg n = min (n * 50) 2000"
  using assms by (simp add: parseConfig_retryStrategy [OF assms(1)] retryStrategy_closure_def)

text \<open>
  Scenario A of the specification: the defaults are 10 retries and 3 workers, and without
  a fixed delay the strategy is the capped linear one. With the fixed delay 250 the
  strategy is constant.
\<close>

lemma scenario_A:
  "\<exists>cfg. parseConfig has_redis_scheme localhost_6793 config_default = Inr cfg
     \<and> maxRetriesPerRequest cfg = 10 \<and> workerCount cfg = 3
     \<and> retryStrategy cfg 0 = 0 \<and> retryStrategy cfg 7 = 350 \<and> retryStrategy cfg 41 = 2000"
  by (simp add: parseConfig_def configValidator_def config_default_def has_redis_scheme_def
      retryStrategy_closure_def)

lemma fixed_delay_250:
  "\<exists>cfg. parseConfig has_redis_scheme localhost_6793 config_delay_250 = Inr cfg
     \<and> retryStrategy cfg 0 = 250 \<and> retryStrategy cfg 41 = 250"
  by (simp add: parseConfig_def configValidator_def config_delay_250_def config_default_def
      has_redis_scheme_def retryStrategy_closure_def)

text \<open>
  C5, at the failing input. The validator accepts the fixed retry delay \<open>0\<close>, but the
  closure tests the delay for truthiness, so the configured \<open>0\<close> is taken for an absent
  one: for every attempt count \<open>n\<close> the strategy returns \<open>min (n * 50) 2000\<close> and not the
  configured \<open>0\<close>.
\<close>

theorem C5_zero_delay_ignored:
  assumes "parseConfig redis_uri url_parse c = Inr cfg"
    and "REDIS_RETRY_DELAY_MS c = Some 0"
  shows "retryStrategy cfg n = min (n * 50) 2000"
  using assms by (simp add: parseConfig_retryStrategy [OF assms(1)] retryStrategy_closure_def)

theorem C5_zero_delay_ignored_witness:
  "(\<exists>cfg. parseConfig has_redis_scheme localhost_6793 config_delay_0 = Inr cfg
        \<and> REDIS_RETRY_DELAY_MS config_delay_0 = Some 0
        \<and> retryStrategy cfg 1 = 50 \<and> retryStrategy cfg 40 = 2000)"
proof -
  obtain cfg where a: "parseConfig has_redis_scheme localhost_6793 config_delay_0 = Inr cfg"
    by (simp add: parseConfig_def configValidator_def config_delay_0_def config_default_def
        has_redis_scheme_def)
  have b: "REDIS_RETRY_DELAY_MS config_delay_0 = Some 0"
    by (simp add: config_delay_0_def)
  have "retryStrategy cfg 1 = 50" and "retryStrategy cfg 40 = 2000"
    using C5_zero_delay_ignored [OF a b, of 1] C5_zero_delay_ignored [OF a b, of 40]
    by simp_all
  with a b show ?thesis by blast
qed

section \<open>Properties of shutdown and of the connect handler\<close>

lemma removeListener_absent:
  assumes "f \<notin> set (em ev)"
  shows "removeListener em ev f = em"
  using assms by (simp add: removeListener_def remove1_idem)

lemma registered_listeners:
  assumes "redis c0 = (\<lambda>_. [])" and "lockManager c0 = (\<lambda>_. [])" and "bound c0 = 0"
  shows "redis (registerRedisEventHandlers c0) =
           (\<lambda>_. [])(''connect'' := [Bound 0 ConnectHandler],
                    ''reconnecting'' := [Bound 1 ReconnectingHandler],
                    ''error'' := [Bound 2 ErrorHandler])"
    and "lockManager (registerRedisEventHandlers c0) =
           (\<lambda>_. [])(''clientError'' := [Bound 3 LockClientErrorHandler])"
  using assms
  by (simp_all add: registerRedisEventHandlers_def bind_this_def on_def Let_def
      numeral_3_eq_3 numeral_2_eq_2)

lemma unregister_noop:
  assumes "redis c =
           (\<lambda>_. [])(''connect'' := [Bound 0 ConnectHandler],
                    ''reconnecting'' := [Bound 1 ReconnectingHandler],
                    ''error'' := [Bound 2 ErrorHandler])"
    and "lockManager c = (\<lambda>_. [])(''clientError'' := [Bound 3 LockClientErrorHandler])"
  shows "unregisterRedisEventHandlers c = c"
proof -
  have 1: "removeListener (lockManager c) ''clientError'' (Method LockClientErrorHandler)
           = lockManager c"
    by (rule removeListener_absent) (simp add: assms)
  have 2: "removeListener (redis c) ''connect'' (Method ConnectHandler) = redis c"
    by (rule removeListener_absent) (simp add: assms)
  have 3: "removeListener (redis c) ''reconnecting'' (Method ReconnectingHandler) = redis c"
    by (rule removeListener_absent) (simp add: assms)
  have 4: "removeListener (redis c) ''error'' (Method ErrorHandler) = redis c"
    by (rule removeListener_absent) (simp add: assms)
  show ?thesis
    by (simp add: unregisterRedisEventHandlers_def Let_def 1 2 3 4)
qed

lemma constructor_listeners:
  assumes "constructor redis_uri url_parse p = Inr c"
  shows "redis c =
           (\<lambda>_. [])(''connect'' := [Bound 0 ConnectHandler],
                    ''reconnecting'' := [Bound 1 ReconnectingHandler],
                    ''error'' := [Bound 2 ErrorHandler])"
    and "lockManager c = (\<lambda>_. [])(''clientError'' := [Bound 3 LockClientErrorHandler])"
  using assms
  by (auto simp: constructor_def registered_listeners split: sum.splits)

lemma shutdown_state:
  "snd (shutdown q c) =
     (case q of
        Some err \<Rightarrow> (unregisterRedisEventHandlers c)\<lparr>quit_called := True\<rparr>
      | None \<Rightarrow> (unregisterRedisEventHandlers c)
                 \<lparr>quit_called := True,
                  logger := logger (unregisterRedisEventHandlers c)
                            @ [(Warn, Message ''Connection to redis closed'')]\<rparr>)"
  by (simp add: shutdown_def Let_def split: option.splits)

text \<open>
  The promise of \<open>shutdown\<close> resolves when closing succeeds and rejects with the error
  of closing otherwise.
\<close>

lemma shutdown_result:
  "fst (shutdown q c) = (case q of None \<Rightarrow> Fulfilled () | Some err \<Rightarrow> Rejected err)"
  by (simp add: shutdown_def Let_def split: option.splits)

text \<open>
  C6, at the failing input. The constructor registers \<open>this.connectHandler.bind(this)\<close>
  and its three siblings, function objects made by \<open>bind\<close>; \<open>shutdown\<close> asks the
  emitters to remove \<open>this.connectHandler\<close> and its siblings, other function objects,
  which were never registered. After \<open>shutdown\<close>, whatever the outcome of closing, all
  four handlers that the constructor registered are still registered.
\<close>

theorem C6_handlers_remain:
  assumes "constructor redis_uri url_parse p = Inr c"
  shows "redis (snd (shutdown q c)) ''connect'' = [Bound 0 ConnectHandler]
       \<and> redis (snd (shutdown q c)) ''reconnecting'' = [Bound 1 ReconnectingHandler]
       \<and> redis (snd (shutdown q c)) ''error'' = [Bound 2 ErrorHandler]
       \<and> lockManager (snd (shutdown q c)) ''clientError'' = [Bound 3 LockClientErrorHandler]
       \<and> quit_called (snd (shutdown q c))"
proof -
  note l = constructor_listeners [OF assms]
  have u: "unregisterRedisEventHandlers c = c"
    by (rule unregister_noop [OF l])
  show ?thesis
    by (cases q) (simp_all add: shutdown_state u l)
qed

theorem C6_handlers_remain_witness:
  "\<exists>c :: string client.
      constructor has_redis_scheme localhost_6793 config_default = Inr c
    \<and> redis (snd (shutdown None c)) ''connect'' = [Bound 0 ConnectHandler]
    \<and> redis (snd (shutdown None c)) ''reconnecting'' = [Bound 1 ReconnectingHandler]
    \<and> redis (snd (shutdown None c)) ''error'' = [Bound 2 ErrorHandler]
    \<and> lockManager (snd (shutdown None c)) ''clientError'' = [Bound 3 LockClientErrorHandler]
    \<and> quit_called (snd (shutdown None c))"
proof -
  obtain c :: "string client"
    where a: "constructor has_redis_scheme localhost_6793 config_default = Inr c"
    by (simp add: constructor_def parseConfig_def configValidator_def config_default_def
        has_redis_scheme_def)
  show ?thesis
    using C6_handlers_remain [OF a, of None] a by blast
qed

text \<open>
  C7, at the failing input. In a process whose global object has no property \<open>config\<close>
  the handler of the connect event throws a \<open>ReferenceError\<close> and logs nothing.
\<close>

theorem C7_connectHandler_throws:
  assumes "global ''config'' = None"
  shows "connectHandler global green_uri c = (Throw (ReferenceError ''config''), c)"
  using assms by (simp add: connectHandler_def)

theorem C7_connectHandler_throws_witness:
  "\<exists>c :: string client.
      constructor has_redis_scheme localhost_6793 config_default = Inr c
    \<and> plain_global ''config'' = None
    \<and> connectHandler plain_global no_green c = (Throw (ReferenceError ''config''), c)"
proof -
  obtain c :: "string client"
    where a: "constructor has_redis_scheme localhost_6793 config_default = Inr c"
    by (simp add: constructor_def parseConfig_def configValidator_def config_default_def
        has_redis_scheme_def)
  have b: "plain_global ''config'' = None"
    by (simp add: plain_global_def)
  show ?thesis
    using C7_connectHandler_throws [of plain_global no_green c] a b by blast
qed

section \<open>JSON.parse inverts JSON.stringify\<close>

lemma skip_ws_start: "\<not> is_ws c \<Longrightarrow> skip_ws (c # r) = c # r"
  by (simp add: skip_ws_def)

lemma digit_char_is_digit: "d < 10 \<Longrightarrow> is_digit (digit_char d)"
  by (simp add: is_digit_def digit_char_def)

lemma digit_val_digit_char: "d < 10 \<Longrightarrow> digit_val (digit_char d) = d"
  by (simp add: digit_val_def digit_char_def)

lemma digits_nonempty: "digits n \<noteq> []"
  by (subst digits.simps) simp

lemma digits_all: "c \<in> set (digits n) \<Longrightarrow> is_digit c"
proof (induction n arbitrary: c rule: digits.induct)
  case (1 n)
  show ?case
  proof (cases "n < 10")
    case True
    with "1.prems" show ?thesis
      by (subst (asm) digits.simps) (simp add: digit_char_is_digit)
  next
    case False
    with "1.prems" "1.IH" show ?thesis
      by (subst (asm) digits.simps) (auto simp: digit_char_is_digit)
  qed
qed

lemma digits_value: "foldl (\<lambda>a c. 10 * a + digit_val c) 0 (digits n) = n"
proof (induction n rule: digits.induct)
  case (1 n)
  show ?case
  proof (cases "n < 10")
    case True
    then show ?thesis
      by (subst digits.simps) (simp add: digit_val_digit_char)
  next
    case False
    with "1.IH" show ?thesis
      by (subst digits.simps) (simp add: digit_val_digit_char)
  qed
qed

lemma digit_char_zero:
  assumes "d < 10" and "digit_char d = CHR ''0''"
  shows "d = 0"
proof -
  have "(of_char (digit_char d) :: nat) = of_char (CHR ''0'')"
    using assms(2) by simp
  then show ?thesis
    using assms(1) by (simp add: digit_char_def)
qed

lemma char_of_eq_nat: "char_of (n::nat) = c \<longleftrightarrow> n mod 256 = of_char c"
  by (simp add: char_of_eq_iff take_bit_eq_mod)

lemma digits_zero: "digits 0 = ''0''"
  by (subst digits.simps) (simp add: digit_char_def char_of_eq_nat)

lemma digits_no_leading_zero: "0 < n \<Longrightarrow> hd (digits n) \<noteq> CHR ''0''"
proof (induction n rule: digits.induct)
  case (1 n)
  show ?case
  proof (cases "n < 10")
    case True
    with "1.prems" show ?thesis
      by (subst digits.simps) (auto dest: digit_char_zero)
  next
    case False
    then have "0 < n div 10" by simp
    with False "1.IH" show ?thesis
      by (subst digits.simps) (simp add: digits_nonempty)
  qed
qed

lemma takeWhile_digits:
  assumes "num_stop r"
  shows "takeWhile is_digit (digits n @ r) = digits n"
    and "dropWhile is_digit (digits n @ r) = r"
proof -
  have a: "\<forall>c \<in> set (digits n). is_digit c"
    by (simp add: digits_all)
  have b: "takeWhile is_digit r = []" and c: "dropWhile is_digit r = r"
    using assms by (cases r; simp add: num_stop_def)+
  show "takeWhile is_digit (digits n @ r) = digits n"
    using a b by (simp add: takeWhile_append2)
  show "dropWhile is_digit (digits n @ r) = r"
    using a c by (simp add: dropWhile_append2)
qed

lemma parse_nat_digits:
  assumes "num_stop r"
  shows "parse_nat (digits n @ r) = Parsed n r"
proof -
  have z: "\<not> (hd (digits n) = CHR ''0'' \<and> 1 < length (digits n))"
  proof (cases "n = 0")
    case True
    then show ?thesis by (simp add: digits_zero)
  next
    case False
    then show ?thesis using digits_no_leading_zero [of n] by simp
  qed
  have s: "\<not> (case r of [] \<Rightarrow> False
                | c # _ \<Rightarrow> c = CHR ''.'' \<or> c = CHR ''e'' \<or> c = CHR ''E'')"
    using assms by (cases r) (simp_all add: num_stop_def)
  show ?thesis
    unfolding parse_nat_def Let_def takeWhile_digits [OF assms]
    using z s by (simp add: digits_nonempty digits_value)
qed

lemma digits_Cons: "\<exists>d ds. digits n = d # ds \<and> is_digit d"
proof (cases "digits n")
  case Nil
  then show ?thesis by (simp add: digits_nonempty)
next
  case (Cons d ds)
  then have "d \<in> set (digits n)" by simp
  then show ?thesis using Cons digits_all by blast
qed

lemma is_digit_not_minus: "is_digit c \<Longrightarrow> c \<noteq> CHR ''-''"
  by (auto simp: is_digit_def)

lemma parse_number_stringify:
  assumes "num_stop r"
  shows "parse_number (JSON_stringify (JNum n) @ r) = Parsed (JNum n) r"
proof (cases "n < 0")
  case True
  then show ?thesis
    by (simp add: parse_number_def parse_nat_digits [OF assms])
next
  case False
  obtain d ds where d: "digits (nat n) = d # ds" "is_digit d"
    using digits_Cons by blast
  have "parse_number (digits (nat n) @ r) = map_parsed (\<lambda>n. JNum (int n)) (parse_nat (digits (nat n) @ r))"
    using d is_digit_not_minus [OF d(2)] by (simp add: parse_number_def)
  then show ?thesis
    using False by (simp add: parse_nat_digits [OF assms])
qed


lemma hex_val_hex_char: "d < 16 \<Longrightarrow> hex_val (hex_char d) = Some d"
  by (auto simp: hex_val_def hex_char_def Let_def)

lemma hex_val_zero: "hex_val (CHR ''0'') = Some 0"
  by (simp add: hex_val_def)

lemma char_of_div_mod:
  "char_of (16 * ((of_char c :: nat) div 16) + (of_char c :: nat) mod 16) = c"
  by simp

lemma parse_chars_escape:
  "parse_chars (escape c @ r) = map_parsed ((#) c) (parse_chars r)"
proof -
  consider (quote) "c = CHR 0x22" | (bs) "c = CHR 0x5C"
    | (b) "c = CHR 0x08" | (t) "c = CHR 0x09" | (n) "c = CHR 0x0A"
    | (f) "c = CHR 0x0C" | (r) "c = CHR 0x0D"
    | (ctl) "c \<noteq> CHR 0x22" "c \<noteq> CHR 0x5C" "c \<noteq> CHR 0x08" "c \<noteq> CHR 0x09" "c \<noteq> CHR 0x0A"
        "c \<noteq> CHR 0x0C" "c \<noteq> CHR 0x0D" "(of_char c :: nat) < 32"
    | (plain) "c \<noteq> CHR 0x22" "c \<noteq> CHR 0x5C" "\<not> (of_char c :: nat) < 32"
    by (cases "(of_char c :: nat) < 32") auto
  then show ?thesis
  proof cases
    case quote
    then show ?thesis by (simp add: escape_def unescape_def)
  next
    case bs
    then show ?thesis by (simp add: escape_def unescape_def)
  next
    case b
    then show ?thesis by (simp add: escape_def unescape_def)
  next
    case t
    then show ?thesis by (simp add: escape_def unescape_def)
  next
    case n
    then show ?thesis by (simp add: escape_def unescape_def)
  next
    case f
    then show ?thesis by (simp add: escape_def unescape_def)
  next
    case r
    then show ?thesis by (simp add: escape_def unescape_def)
  next
    case ctl
    have h1: "hex_val (hex_char ((of_char c :: nat) div 16)) = Some ((of_char c :: nat) div 16)"
      using ctl(8) by (intro hex_val_hex_char) simp
    have h0: "hex_val (hex_char ((of_char c :: nat) mod 16)) = Some ((of_char c :: nat) mod 16)"
      by (intro hex_val_hex_char) simp
    have e: "escape c = [CHR 0x5C, CHR ''u'', CHR ''0'', CHR ''0'',
         hex_char (of_char c div 16), hex_char (of_char c mod 16)]"
      using ctl by (simp add: escape_def)
    show ?thesis
      unfolding e by (simp add: hex_val_zero h1 h0 char_of_div_mod)
  next
    case plain
    have "\<not> (of_char c :: nat) < 32 \<Longrightarrow> c \<noteq> CHR 0x08 \<and> c \<noteq> CHR 0x09 \<and> c \<noteq> CHR 0x0A
        \<and> c \<noteq> CHR 0x0C \<and> c \<noteq> CHR 0x0D"
      by auto
    with plain show ?thesis by (simp add: escape_def)
  qed
qed

lemma parse_chars_quote:
  "parse_chars (concat (map escape s) @ CHR 0x22 # r) = Parsed s r"
proof (induction s)
  case Nil
  show ?case by simp
next
  case (Cons c s)
  have "parse_chars (concat (map escape (c # s)) @ CHR 0x22 # r)
        = parse_chars (escape c @ (concat (map escape s) @ CHR 0x22 # r))"
    by simp
  also have "\<dots> = map_parsed ((#) c) (parse_chars (concat (map escape s) @ CHR 0x22 # r))"
    by (rule parse_chars_escape)
  finally show ?case by (simp add: Cons.IH)
qed

lemma put_fresh: "k \<notin> fst ` set ps \<Longrightarrow> put k v ps = ps @ [(k, v)]"
  by (induction ps) auto

lemma foldl_put_distinct:
  assumes "distinct (map fst ms)" and "fst ` set acc \<inter> fst ` set ms = {}"
  shows "foldl (\<lambda>ps m. put (fst m) (snd m) ps) acc ms = acc @ ms"
  using assms
proof (induction ms arbitrary: acc)
  case Nil
  show ?case by simp
next
  case (Cons m ms)
  have f: "fst m \<notin> fst ` set acc"
    using Cons.prems(2) by auto
  have "foldl (\<lambda>ps m. put (fst m) (snd m) ps) acc (m # ms)
        = foldl (\<lambda>ps m. put (fst m) (snd m) ps) (acc @ [m]) ms"
    by (simp add: put_fresh [OF f])
  also have "\<dots> = (acc @ [m]) @ ms"
  proof (rule Cons.IH)
    show "distinct (map fst ms)"
      using Cons.prems(1) by simp
    show "fst ` set (acc @ [m]) \<inter> fst ` set ms = {}"
      using Cons.prems by auto
  qed
  finally show ?case by simp
qed

lemma object_of_distinct:
  assumes "distinct (map fst ms)" and "own_property_order ms = ms"
  shows "object_of ms = JObj ms"
  using foldl_put_distinct [of ms "[]"] assms by (simp add: object_of_def)


lemma start_char_facts:
  assumes "start_char c"
  shows "\<not> is_ws c" and "c \<noteq> CHR '']''" and "c \<noteq> CHR ''}''" and "c \<noteq> CHR '',''"
  using assms by (auto simp: start_char_def is_ws_def is_digit_def)

lemma stringify_start: "\<exists>c cs. JSON_stringify v = c # cs \<and> start_char c"
proof (cases v)
  case (JNum i)
  obtain d ds where "digits (nat i) = d # ds" "is_digit d"
    using digits_Cons by blast
  with JNum show ?thesis by (simp add: start_char_def)
qed (simp_all add: start_char_def quote_def)

lemma commas_Cons:
  "xs \<noteq> [] \<Longrightarrow> commas (x # xs) = x @ CHR '','' # commas xs"
  by (cases xs) simp_all

lemma commas_start:
  assumes "xs \<noteq> []"
  shows "\<exists>c cs. commas (map JSON_stringify xs) = c # cs \<and> start_char c"
proof -
  obtain x ys where xs: "xs = x # ys"
    using assms by (cases xs) auto
  obtain c cs where c: "JSON_stringify x = c # cs" "start_char c"
    using stringify_start by blast
  show ?thesis
    using c by (cases ys) (simp_all add: xs)
qed

lemma num_stop_sep:
  "num_stop (CHR '','' # r)" "num_stop (CHR '']'' # r)" "num_stop (CHR ''}'' # r)" "num_stop []"
  by (simp_all add: num_stop_def is_digit_def)

lemma skip_ws_sep:
  "skip_ws (CHR '','' # r) = CHR '','' # r"
  "skip_ws (CHR '']'' # r) = CHR '']'' # r"
  "skip_ws (CHR ''}'' # r) = CHR ''}'' # r"
  "skip_ws (CHR '':'' # r) = CHR '':'' # r"
  "skip_ws (CHR 0x22 # r) = CHR 0x22 # r"
  by (simp_all add: skip_ws_def is_ws_def)

lemma parse_elements_stringify:
  assumes "xs \<noteq> []"
    and "\<And>x n r. x \<in> set xs \<Longrightarrow> length (JSON_stringify x) \<le> n \<Longrightarrow> num_stop r \<Longrightarrow>
           parse_value n (JSON_stringify x @ r) = Parsed x r"
    and "length (commas (map JSON_stringify xs)) < n"
  shows "parse_elements n (commas (map JSON_stringify xs) @ CHR '']'' # r) = Parsed xs r"
  using assms
proof (induction xs arbitrary: n rule: list_nonempty_induct)
  case (single x)
  obtain m where n: "n = Suc m"
    using single.prems(2) by (cases n) auto
  have "parse_value m (JSON_stringify x @ CHR '']'' # r) = Parsed x (CHR '']'' # r)"
    using single.prems(2) by (intro single.prems(1)) (simp_all add: n num_stop_sep)
  then show ?case
    by (simp add: n skip_ws_sep)
next
  case (cons x xs)
  obtain m where n: "n = Suc m"
    using cons.prems(2) by (cases n) auto
  let ?rest = "commas (map JSON_stringify xs) @ CHR '']'' # r"
  have c: "commas (map JSON_stringify (x # xs)) = JSON_stringify x @ CHR '','' # commas (map JSON_stringify xs)"
    using cons.hyps by (simp add: commas_Cons)
  obtain c0 cs0 where s: "JSON_stringify x = c0 # cs0"
    using stringify_start by blast
  have len: "length (JSON_stringify x) + 1 + length (commas (map JSON_stringify xs)) < Suc m"
    using cons.prems(2) unfolding n c by simp
  have v: "parse_value m (JSON_stringify x @ CHR '','' # ?rest) = Parsed x (CHR '','' # ?rest)"
    using len by (intro cons.prems(1)) (simp_all add: num_stop_sep)
  have e: "parse_elements m ?rest = Parsed xs r"
  proof (rule cons.IH)
    show "length (commas (map JSON_stringify xs)) < m"
      using len by (simp add: s)
  qed (use cons.prems(1) in simp)
  have "parse_elements (Suc m) ((JSON_stringify x @ CHR '','' # commas (map JSON_stringify xs))
          @ CHR '']'' # r) = Parsed (x # xs) r"
    by (simp add: v e skip_ws_sep)
  then show ?case
    unfolding n c .
qed


lemma member_text_length: "length (JSON_stringify (snd p)) + 3 \<le> length (member_text p)"
  by (simp add: member_text_def quote_def)

lemma parse_member_head:
  assumes "parse_value m (JSON_stringify (snd p) @ tail) = Parsed (snd p) (c # r)"
    and "\<not> is_ws c"
  shows "parse_members (Suc m) (member_text p @ tail) =
           (if c = CHR '','' then map_parsed ((#) p) (parse_members m r)
            else if c = CHR ''}'' then Parsed [p] r
            else Malformed)"
proof -
  have t: "member_text p @ tail =
      CHR 0x22 # (concat (map escape (fst p)) @ CHR 0x22 # (CHR '':'' # JSON_stringify (snd p) @ tail))"
    by (simp add: member_text_def quote_def)
  show ?thesis
    unfolding t
    by (simp add: skip_ws_sep parse_chars_quote assms(1) skip_ws_start [OF assms(2)])
qed

lemma not_ws_sep: "\<not> is_ws (CHR '','')" "\<not> is_ws (CHR ''}'')" "\<not> is_ws (CHR '']'')"
  by (simp_all add: is_ws_def)

lemma parse_members_stringify:
  assumes "ps \<noteq> []"
    and "\<And>p n r. p \<in> set ps \<Longrightarrow> length (JSON_stringify (snd p)) \<le> n \<Longrightarrow> num_stop r \<Longrightarrow>
           parse_value n (JSON_stringify (snd p) @ r) = Parsed (snd p) r"
    and "length (commas (map member_text ps)) < n"
  shows "parse_members n (commas (map member_text ps) @ CHR ''}'' # r) = Parsed ps r"
  using assms
proof (induction ps arbitrary: n rule: list_nonempty_induct)
  case (single p)
  obtain m where n: "n = Suc m"
    using single.prems(2) by (cases n) auto
  have "length (JSON_stringify (snd p)) \<le> m"
    using single.prems(2) member_text_length [of p] by (simp add: n)
  then have v: "parse_value m (JSON_stringify (snd p) @ CHR ''}'' # r) = Parsed (snd p) (CHR ''}'' # r)"
    by (intro single.prems(1)) (simp_all add: num_stop_sep)
  have "parse_members (Suc m) (member_text p @ CHR ''}'' # r) = Parsed [p] r"
    by (subst parse_member_head [OF v not_ws_sep(2)]) simp
  then show ?case
    unfolding n by simp
next
  case (cons p ps)
  obtain m where n: "n = Suc m"
    using cons.prems(2) by (cases n) auto
  let ?rest = "commas (map member_text ps) @ CHR ''}'' # r"
  have c: "commas (map member_text (p # ps)) = member_text p @ CHR '','' # commas (map member_text ps)"
    using cons.hyps by (simp add: commas_Cons)
  have len: "length (member_text p) + 1 + length (commas (map member_text ps)) < Suc m"
    using cons.prems(2) unfolding n c by simp
  have "length (JSON_stringify (snd p)) \<le> m"
    using len member_text_length [of p] by simp
  then have v: "parse_value m (JSON_stringify (snd p) @ CHR '','' # ?rest)
                = Parsed (snd p) (CHR '','' # ?rest)"
    by (intro cons.prems(1)) (simp_all add: num_stop_sep)
  have e: "parse_members m ?rest = Parsed ps r"
  proof (rule cons.IH)
    show "length (commas (map member_text ps)) < m"
      using len member_text_length [of p] by simp
  qed (use cons.prems(1) in simp)
  have "parse_members (Suc m) (member_text p @ CHR '','' # ?rest) = Parsed (p # ps) r"
    by (subst parse_member_head [OF v not_ws_sep(1)]) (simp add: e)
  then show ?case
    unfolding n c by simp
qed

lemma is_digit_facts:
  assumes "is_digit c"
  shows "\<not> is_ws c" and "c \<noteq> CHR ''n''" and "c \<noteq> CHR ''t''" and "c \<noteq> CHR ''f''"
    and "c \<noteq> CHR 0x22" and "c \<noteq> CHR ''[''" and "c \<noteq> CHR ''{''"
  using assms by (auto simp: is_digit_def is_ws_def)

lemma parse_value_digit:
  assumes "is_digit c"
  shows "parse_value (Suc n) (c # r) = parse_number (c # r)"
  by (simp add: skip_ws_start is_digit_facts [OF assms] assms)

lemma parse_value_minus:
  "parse_value (Suc n) (CHR ''-'' # r) = parse_number (CHR ''-'' # r)"
  by (simp add: is_ws_def skip_ws_def)

lemma parse_value_stringify:
  assumes "js_value v" and "length (JSON_stringify v) \<le> n" and "num_stop r"
  shows "parse_value n (JSON_stringify v @ r) = Parsed v r"
  using assms
proof (induction v arbitrary: n r)
  case JNull
  then obtain m where "n = Suc m" by (cases n) auto
  then show ?case by (simp add: skip_ws_def is_ws_def)
next
  case (JBool b)
  then obtain m where "n = Suc m" by (cases n; cases b) auto
  then show ?case by (cases b) (simp_all add: skip_ws_def is_ws_def)
next
  case (JNum i)
  obtain c cs where s: "JSON_stringify (JNum i) = c # cs" "c = CHR ''-'' \<or> is_digit c"
  proof (cases "i < 0")
    case True
    then show ?thesis using that by simp
  next
    case False
    obtain d ds where "digits (nat i) = d # ds" "is_digit d"
      using digits_Cons by blast
    with False show ?thesis using that by simp
  qed
  obtain m where n: "n = Suc m"
    using JNum.prems(2) s(1) by (cases n) auto
  have "parse_value (Suc m) ((c # cs) @ r) = parse_number ((c # cs) @ r)"
    using s(2) parse_value_digit parse_value_minus by auto
  then show ?case
    unfolding n s(1) [symmetric] by (simp only: parse_number_stringify [OF JNum.prems(3)])
next
  case (JStr s)
  then obtain m where "n = Suc m" by (cases n) (auto simp: quote_def)
  then show ?case
    by (simp add: quote_def skip_ws_sep parse_chars_quote)
next
  case (JArr xs)
  obtain m where n: "n = Suc m"
    using JArr.prems(2) by (cases n) auto
  show ?case
  proof (cases "xs = []")
    case True
    then show ?thesis by (simp add: n skip_ws_def is_ws_def)
  next
    case False
    let ?body = "commas (map JSON_stringify xs)"
    obtain c cs where c: "?body = c # cs" "start_char c"
      using commas_start [OF False] by blast
    have e: "parse_elements m (?body @ CHR '']'' # r) = Parsed xs r"
    proof (rule parse_elements_stringify [OF False])
      show "length ?body < m"
        using JArr.prems(2) by (simp add: n)
      show "parse_value k (JSON_stringify x @ t) = Parsed x t"
        if "x \<in> set xs" "length (JSON_stringify x) \<le> k" "num_stop t" for x k t
        using that JArr.IH [of x k t] JArr.prems(1) by simp
    qed
    have "parse_value (Suc m) (CHR ''['' # (?body @ CHR '']'' # r))
          = map_parsed JArr (parse_elements m (?body @ CHR '']'' # r))"
      using start_char_facts [OF c(2)] by (simp add: skip_ws_def is_ws_def c(1))
    then show ?thesis
      by (simp add: n e)
  qed
next
  case (JObj ps)
  obtain m where n: "n = Suc m"
    using JObj.prems(2) by (cases n) auto
  have d: "distinct (map fst ps)" and o: "own_property_order ps = ps"
    using JObj.prems(1) by simp_all
  show ?case
  proof (cases "ps = []")
    case True
    then show ?thesis by (simp add: n skip_ws_def is_ws_def)
  next
    case False
    let ?body = "commas (map member_text ps)"
    have b: "JSON_stringify (JObj ps) = CHR ''{'' # ?body @ ''}''"
      by (simp add: member_text_def [abs_def])
    obtain p qs where ps: "ps = p # qs"
      using False by (cases ps) auto
    have c: "\<exists>cs. ?body = CHR 0x22 # cs"
      by (cases qs) (simp_all add: ps member_text_def quote_def)
    then obtain cs where c': "?body = CHR 0x22 # cs" by blast
    have e: "parse_members m (?body @ CHR ''}'' # r) = Parsed ps r"
    proof (rule parse_members_stringify [OF False])
      show "length ?body < m"
        using JObj.prems(2) unfolding b by (simp add: n)
      show "parse_value k (JSON_stringify (snd q) @ t) = Parsed (snd q) t"
        if "q \<in> set ps" "length (JSON_stringify (snd q)) \<le> k" "num_stop t" for q k t
      proof (rule JObj.IH [of q "snd q"])
        show "q \<in> set ps" by (rule that(1))
        show "snd q \<in> Basic_BNFs.snds q" by (cases q) simp
        show "js_value (snd q)" using JObj.prems(1) that(1) by simp
      qed (use that in simp_all)
    qed
    have "parse_value (Suc m) (CHR ''{'' # (?body @ CHR ''}'' # r))
          = map_parsed object_of (parse_members m (?body @ CHR ''}'' # r))"
      by (simp add: skip_ws_def is_ws_def c')
    then show ?thesis
      unfolding b n by (simp add: e object_of_distinct [OF d o])
  qed
qed

section \<open>Properties of the commands\<close>

lemma JSON_parse_stringify:
  assumes "js_value v"
  shows "JSON_parse (JStr (JSON_stringify v)) = Inr v"
proof -
  have "parse_value (Suc (length (JSON_stringify v))) (JSON_stringify v @ []) = Parsed v []"
    by (rule parse_value_stringify [OF assms]) (simp_all add: num_stop_sep)
  then show ?thesis
    by (simp add: JSON_parse_def skip_ws_def)
qed

lemma JSON_parse_null: "JSON_parse JNull = Inr JNull"
  by (simp add: JSON_parse_def skip_ws_def is_ws_def)

lemma command_args_pair: "command_args [Str k, Str v] = [k, v]"
  by (simp add: command_args_def flatten_once_def)

lemma set_json:
  "set' k v True st = (Fulfilled (), st(k \<mapsto> JSON_stringify v))"
  by (simp add: set'_def redis_set_def command_args_pair)

text \<open>
  On the values of the model, that is without fractions and without code units above
  255: after \<open>set(k, v)\<close> a \<open>get(k)\<close> fulfills with \<open>v\<close>, and a raw \<open>get(k, false)\<close>
  fulfills with the string that \<open>JSON.stringify(v)\<close> produced.
\<close>

lemma set_then_get:
  assumes "js_value v"
  shows "get k True (snd (set' k v True st)) = Fulfilled v
       \<and> get k False (snd (set' k v True st)) = Fulfilled (JStr (JSON_stringify v))"
  by (simp add: get_def set_json redis_get_def JSON_parse_stringify [OF assms])

lemma stringify_v1:
  "JSON_stringify (JObj [(''v'', JNum 1)]) =
     [CHR ''{'', CHR 0x22, CHR ''v'', CHR 0x22, CHR '':'', CHR ''1'', CHR ''}'']"
proof -
  have "digits (Suc 0) = ''1''"
    by (subst digits.simps) (simp add: digit_char_def char_of_eq_nat)
  then show ?thesis
    by (simp add: quote_def escape_def)
qed

lemma js_value_v1: "js_value (JObj [(''v'', JNum 1)])"
  by (simp add: own_property_order_def is_index_name_def is_digit_def)

text \<open>Scenario B of the specification.\<close>

lemma scenario_B:
  "get ''k'' True (snd (set' ''k'' (JObj [(''v'', JNum 1)]) True Map.empty))
     = Fulfilled (JObj [(''v'', JNum 1)])
   \<and> get ''k'' False (snd (set' ''k'' (JObj [(''v'', JNum 1)]) True Map.empty))
     = Fulfilled (JStr [CHR ''{'', CHR 0x22, CHR ''v'', CHR 0x22, CHR '':'', CHR ''1'', CHR ''}''])"
  using set_then_get [OF js_value_v1, of "''k''" Map.empty]
  by (simp only: stringify_v1 simp_thms)

text \<open>
  C9. For every key that the store does not hold, \<open>get(key)\<close> in JSON mode fulfills
  with \<open>null\<close>: the store answers \<open>null\<close>, JSON.parse reads it as the text \<open>null\<close>.
\<close>

theorem C9_get_absent_key:
  assumes "st key = None"
  shows "get key True st = Fulfilled JNull"
  by (simp add: get_def redis_get_def assms JSON_parse_null)

theorem C9_get_absent_key_witness:
  "Map.empty ''k'' = None \<and> get ''k'' True Map.empty = Fulfilled JNull"
  using C9_get_absent_key [of Map.empty "''k''"] by simp

text \<open>
  What the client sends for the arguments of \<open>del\<close>: the keys themselves when \<open>del\<close> is
  called with them one by one, and one string, the keys joined by commas, when it is
  called with their array, as \<open>deleteByPattern\<close> calls it.
\<close>

lemma command_args_varargs:
  "command_args [Arr [Str k1, Str k2]] = [k1, k2]"
  by (simp add: command_args_def flatten_once_def)

lemma command_args_nested:
  "command_args [Arr [Arr (map Str keys)]] = [commas keys]"
  by (simp add: command_args_def flatten_once_def comp_def)

lemma store_del_one:
  "store_del [k] st = (if st k = None then 0 else 1, st(k := None))"
  by simp

lemma deleteByPattern_keys:
  assumes "scan scanStream pattern = Some (Fulfilled keys)"
  shows "deleteByPattern scanStream pattern st
         = Some (Fulfilled (if st (commas keys) = None then 0 else 1), st(commas keys := None))"
  by (simp add: deleteByPattern_def assms del_def redis_del_def command_args_nested)

lemma deleteByPattern_two_keys:
  "deleteByPattern scan_k1_k2 ''k*'' store_k1_k2 = Some (Fulfilled 0, store_k1_k2)"
proof -
  have a: "scan scan_k1_k2 ''k*'' = Some (Fulfilled [''k1'', ''k2''])"
    by (simp add: scan_def scan_k1_k2_def)
  have b: "store_k1_k2 (commas [''k1'', ''k2'']) = None"
    by (simp add: store_k1_k2_def)
  show ?thesis
    using deleteByPattern_keys [OF a, of store_k1_k2] b by (simp add: fun_upd_idem)
qed




end
